theory Spec2Isabelle
  imports Main "HOL-Library.AList"
begin

section \<open>The object store as seen by the comparer\<close>

text \<open>
  The program talks to the object store through a boto3 client. Three calls matter:
  the paginated listing \<^verbatim>\<open>get_paginator('list_objects_v2').paginate(Bucket=b)\<close>,
  the fetch \<^verbatim>\<open>get_object(Bucket=b, Key=k)\<close> and the body's \<^verbatim>\<open>read(4096)\<close>.
  Each of them either delivers a value or raises. The comparer never inspects the
  exception beyond its message, so one exception type carrying the message suffices.
  What the program writes to its log is not part of the model.
\<close>

datatype exn = Exception string

type_synonym bytes = "char list"

text \<open>One entry of a page's \<^verbatim>\<open>Contents\<close> list, with the four members the code reads.\<close>

record s3_object =
  Key :: string
  Size :: int
  ETag :: string
  LastModified :: int

text \<open>A page of the listing is a dictionary; the only member read is the optional
  \<^verbatim>\<open>Contents\<close>.\<close>

record page =
  Contents :: "s3_object list option"

text \<open>
  The page iterator consumed by the \<^verbatim>\<open>for\<close> loop: it is exhausted, or yields a page and
  continues, or raises.
\<close>

datatype pager = StopIteration | Yield page pager | Raise exn

text \<open>
  The streaming body: each \<^verbatim>\<open>read(4096)\<close> returns a chunk and leaves the rest of the
  stream, or raises. An exhausted stream returns the empty chunk.
\<close>

datatype body = Exhausted | Chunk bytes body | ReadError exn

record s3_client =
  paginate :: "string \<Rightarrow> pager"
  get_object :: "string \<Rightarrow> string \<Rightarrow> exn + body"

text \<open>
  The boto3 module: a client of the default session, and a client of a session opened
  for a named profile. Both may raise (for instance on an unknown profile).
\<close>

record boto3 =
  client :: "exn + s3_client"
  Session_client :: "string \<Rightarrow> exn + s3_client"

section \<open>The comparer\<close>

record comparer =
  source_bucket :: string
  target_bucket :: string
  source_s3 :: s3_client
  target_s3 :: s3_client
  ignore_etags :: bool
  compare_hashes :: bool

text \<open>
  \<^verbatim>\<open>__init__\<close>: a profile that is \<^verbatim>\<open>None\<close> or the empty string is falsy and selects the
  default client. The source client is created first; an exception of either creation
  leaves the constructor.
\<close>

definition make_client :: "boto3 \<Rightarrow> string option \<Rightarrow> exn + s3_client" where
  "make_client b profile =
     (case profile of
        None \<Rightarrow> client b
      | Some p \<Rightarrow> if p = [] then client b else Session_client b p)"

definition init :: "boto3 \<Rightarrow> string \<Rightarrow> string \<Rightarrow> string option \<Rightarrow> string option
    \<Rightarrow> bool \<Rightarrow> bool \<Rightarrow> exn + comparer" where
  "init b src tgt source_profile target_profile ign cmp =
     (case make_client b source_profile of
        Inl e \<Rightarrow> Inl e
      | Inr s \<Rightarrow>
          (case make_client b target_profile of
             Inl e \<Rightarrow> Inl e
           | Inr t \<Rightarrow>
               Inr \<lparr>source_bucket = src, target_bucket = tgt, source_s3 = s, target_s3 = t,
                    ignore_etags = ign, compare_hashes = cmp\<rparr>))"

subsection \<open>Building a snapshot\<close>

text \<open>
  The metadata stored per key, and the snapshot: a Python dictionary, kept as an
  association list in insertion order. \<^const>\<open>AList.update\<close> is the dictionary
  assignment: an existing key keeps its place and takes the new value, a new key is
  appended. The members \<^verbatim>\<open>Size\<close>, \<^verbatim>\<open>ETag\<close> and \<^verbatim>\<open>LastModified\<close> of the stored
  dictionary carry the prefix \<open>m\<close>, to keep them apart from those of the listed object.
\<close>

record metadata =
  mSize :: int
  mETag :: string
  mLastModified :: int

type_synonym snapshot = "(string \<times> metadata) list"

definition store_object :: "snapshot \<Rightarrow> s3_object \<Rightarrow> snapshot" where
  "store_object objects obj =
     AList.update (Key obj)
       \<lparr>mSize = Size obj, mETag = ETag obj, mLastModified = LastModified obj\<rparr> objects"

text \<open>The body of the \<^verbatim>\<open>for page in ...\<close> loop: a page without \<^verbatim>\<open>Contents\<close> is skipped.\<close>

definition add_page :: "snapshot \<Rightarrow> page \<Rightarrow> snapshot" where
  "add_page objects pg =
     (case Contents pg of
        None \<Rightarrow> objects
      | Some objs \<Rightarrow> foldl store_object objects objs)"

text \<open>
  The loop over the pages. An exception raised by the iterator is logged and raised
  again, so the dictionary built so far is lost.
\<close>

fun drain :: "snapshot \<Rightarrow> pager \<Rightarrow> exn + snapshot" where
  "drain objects StopIteration = Inr objects"
| "drain objects (Yield pg rest) = drain (add_page objects pg) rest"
| "drain objects (Raise e) = Inl e"

definition get_bucket_objects :: "s3_client \<Rightarrow> string \<Rightarrow> exn + snapshot" where
  "get_bucket_objects s3 bucket_name = drain [] (paginate s3 bucket_name)"

subsection \<open>Content hashes\<close>

text \<open>
  \<^verbatim>\<open>hashlib.md5\<close> is a library: the digest function is a parameter \<open>md5\<close>, from the
  bytes fed so far to the hexadecimal digest. The hash object is the bytes fed so far.
  The loop \<^verbatim>\<open>iter(lambda: body.read(4096), b'')\<close> stops at the first empty chunk.
\<close>

fun read_chunks :: "bytes \<Rightarrow> body \<Rightarrow> exn + bytes" where
  "read_chunks h Exhausted = Inr h"
| "read_chunks h (Chunk c rest) = (if c = [] then Inr h else read_chunks (h @ c) rest)"
| "read_chunks h (ReadError e) = Inl e"

text \<open>\<^verbatim>\<open>_calculate_md5\<close>: any exception is logged and turned into \<^verbatim>\<open>None\<close>.\<close>

definition calculate_md5 :: "(bytes \<Rightarrow> string) \<Rightarrow> s3_client \<Rightarrow> string \<Rightarrow> string
    \<Rightarrow> string option" where
  "calculate_md5 md5 s3 bucket key =
     (case get_object s3 bucket key of
        Inl e \<Rightarrow> None
      | Inr response_body \<Rightarrow>
          (case read_chunks [] response_body of
             Inl e \<Rightarrow> None
           | Inr h \<Rightarrow> Some (md5 h)))"

text \<open>\<^verbatim>\<open>_compare_file_hashes\<close>\<close>

definition compare_file_hashes :: "(bytes \<Rightarrow> string) \<Rightarrow> comparer \<Rightarrow> string \<Rightarrow> bool" where
  "compare_file_hashes md5 c key =
     (let source_hash = calculate_md5 md5 (source_s3 c) (source_bucket c) key;
          target_hash = calculate_md5 md5 (target_s3 c) (target_bucket c) key
      in if source_hash = None \<or> target_hash = None then False
         else source_hash = target_hash)"

subsection \<open>Classification\<close>

text \<open>
  The keys of the \<^verbatim>\<open>differences\<close> dictionary. The dictionary itself is an association
  list in insertion order; \<^verbatim>\<open>differences[t].add(key)\<close> on a
  \<^verbatim>\<open>defaultdict(set)\<close> is \<^const>\<open>AList.map_default\<close>.
\<close>

datatype diff_type =
  extra_in_target | missing_in_target | size_mismatch | etag_mismatch | content_mismatch

type_synonym differences = "(diff_type \<times> string set) list"

record stats =
  total_files :: nat
  matched_files :: nat

definition add_diff :: "differences \<Rightarrow> diff_type \<Rightarrow> string \<Rightarrow> differences" where
  "add_diff d t key = AList.map_default t {key} (insert key) d"

text \<open>The body of the loop over \<^verbatim>\<open>all_keys\<close>.\<close>

definition compare_key :: "(bytes \<Rightarrow> string) \<Rightarrow> comparer \<Rightarrow> snapshot \<Rightarrow> snapshot
    \<Rightarrow> differences \<times> stats \<Rightarrow> string \<Rightarrow> differences \<times> stats" where
  "compare_key md5 c source_objects target_objects acc key =
     (case acc of (d, st) \<Rightarrow>
        (case map_of source_objects key of
           None \<Rightarrow> (add_diff d extra_in_target key, st)
         | Some source_obj \<Rightarrow>
             (case map_of target_objects key of
                None \<Rightarrow> (add_diff d missing_in_target key, st)
              | Some target_obj \<Rightarrow>
                  if mSize source_obj \<noteq> mSize target_obj
                    then (add_diff d size_mismatch key, st)
                  else if \<not> ignore_etags c \<and> mETag source_obj \<noteq> mETag target_obj
                    then (add_diff d etag_mismatch key, st)
                  else if compare_hashes c \<and> \<not> compare_file_hashes md5 c key
                    then (add_diff d content_mismatch key, st)
                  else (d, st\<lparr>matched_files := matched_files st + 1\<rparr>))))"

text \<open>
  \<^verbatim>\<open>all_keys\<close> is a Python set, whose iteration order is not specified. The model
  enumerates it without repetition in one fixed order; \<open>compare_keys_order\<close> below shows
  that the order does not matter for the sets and counters computed. The loop itself,
  \<open>compare_keys\<close>, takes the enumeration as an argument.
\<close>

definition all_keys :: "snapshot \<Rightarrow> snapshot \<Rightarrow> string list" where
  "all_keys source_objects target_objects =
     remdups (map fst source_objects @ map fst target_objects)"

definition compare_keys :: "(bytes \<Rightarrow> string) \<Rightarrow> comparer \<Rightarrow> snapshot \<Rightarrow> snapshot
    \<Rightarrow> string list \<Rightarrow> differences \<times> stats" where
  "compare_keys md5 c source_objects target_objects keys =
     foldl (compare_key md5 c source_objects target_objects)
       ([], \<lparr>total_files = length keys, matched_files = 0\<rparr>) keys"

text \<open>
  The part of \<^verbatim>\<open>compare_buckets\<close> after the two listings: it sets up the dictionaries,
  runs the loop and returns \<^verbatim>\<open>(dict(differences), dict(stats))\<close>.
\<close>

definition compare_objects :: "(bytes \<Rightarrow> string) \<Rightarrow> comparer \<Rightarrow> snapshot \<Rightarrow> snapshot
    \<Rightarrow> differences \<times> stats" where
  "compare_objects md5 c source_objects target_objects =
     compare_keys md5 c source_objects target_objects
       (all_keys source_objects target_objects)"

text \<open>\<^verbatim>\<open>compare_buckets\<close>: the source listing is taken first, then the target listing;
  an exception of either leaves the method.\<close>

definition compare_buckets :: "(bytes \<Rightarrow> string) \<Rightarrow> comparer \<Rightarrow> exn + differences \<times> stats"
  where
  "compare_buckets md5 c =
     (case get_bucket_objects (source_s3 c) (source_bucket c) of
        Inl e \<Rightarrow> Inl e
      | Inr source_objects \<Rightarrow>
          (case get_bucket_objects (target_s3 c) (target_bucket c) of
             Inl e \<Rightarrow> Inl e
           | Inr target_objects \<Rightarrow>
               Inr (compare_objects md5 c source_objects target_objects)))"

subsection \<open>The command\<close>

text \<open>
  \<^verbatim>\<open>main\<close> after argument parsing, returning the exit status. \<^verbatim>\<open>any(differences.values())\<close>
  holds when some stored set is non-empty. The constructor and \<^verbatim>\<open>compare_buckets\<close> run
  inside the \<^verbatim>\<open>try\<close>, whose handler exits with status 1; \<^verbatim>\<open>sys.exit\<close> itself is not
  caught by that handler.
\<close>

record args =
  arg_source_bucket :: string
  arg_target_bucket :: string
  arg_source_profile :: "string option"
  arg_target_profile :: "string option"
  arg_ignore_etags :: bool
  arg_compare_hashes :: bool

definition any_values :: "differences \<Rightarrow> bool" where
  "any_values d = list_ex (\<lambda>keys. keys \<noteq> {}) (map snd d)"

definition main :: "(bytes \<Rightarrow> string) \<Rightarrow> boto3 \<Rightarrow> args \<Rightarrow> int" where
  "main md5 b a =
     (case init b (arg_source_bucket a) (arg_target_bucket a) (arg_source_profile a)
             (arg_target_profile a) (arg_ignore_etags a) (arg_compare_hashes a) of
        Inl e \<Rightarrow> 1
      | Inr c \<Rightarrow>
          (case compare_buckets md5 c of
             Inl e \<Rightarrow> 1
           | Inr (d, st) \<Rightarrow> if \<not> any_values d then 0 else 1))"

section \<open>The classification of the specification\<close>

text \<open>
  The specification describes the classifier as a decision per key with six outcomes
  (section 4.2), and the content verifier as a component with three answers (section
  4.3): the two digests are equal, they differ, or the digest of one side could not be
  computed. The definitions of this section follow those words, to be compared with
  the loop of the code. The digests are the ones \<^const>\<open>calculate_md5\<close> computes.
\<close>

datatype Outcome =
  MissingInTarget | ExtraInTarget | SizeMismatch | IntegrityTagMismatch | ContentMismatch
  | Matched

datatype verdict = Equal | Unequal | VerificationError

definition verify_equal :: "(bytes \<Rightarrow> string) \<Rightarrow> comparer \<Rightarrow> string \<Rightarrow> verdict" where
  "verify_equal md5 c k =
     (case calculate_md5 md5 (source_s3 c) (source_bucket c) k of
        None \<Rightarrow> VerificationError
      | Some source_digest \<Rightarrow>
          (case calculate_md5 md5 (target_s3 c) (target_bucket c) k of
             None \<Rightarrow> VerificationError
           | Some target_digest \<Rightarrow>
               if source_digest = target_digest then Equal else Unequal))"

text \<open>
  The decision order as it is stated: a content mismatch when contents are verified and
  the verification reports inequality, and matched in every remaining case, the one of
  a digest that could not be computed among them.
\<close>

definition classify_stated :: "(bytes \<Rightarrow> string) \<Rightarrow> comparer \<Rightarrow> snapshot \<Rightarrow> snapshot
    \<Rightarrow> string \<Rightarrow> Outcome" where
  "classify_stated md5 c S T k =
     (case map_of S k of
        None \<Rightarrow> ExtraInTarget
      | Some s \<Rightarrow>
          (case map_of T k of
             None \<Rightarrow> MissingInTarget
           | Some t \<Rightarrow>
               if mSize s \<noteq> mSize t then SizeMismatch
               else if \<not> ignore_etags c \<and> mETag s \<noteq> mETag t then IntegrityTagMismatch
               else if compare_hashes c \<and> verify_equal md5 c k = Unequal then ContentMismatch
               else Matched))"

text \<open>
  The decision order with the fifth step amended: a content mismatch when contents are
  verified and the verification does not report equality, be it that it reports
  inequality or that a digest could not be computed. The first four steps and the last
  are as stated.
\<close>

definition classify :: "(bytes \<Rightarrow> string) \<Rightarrow> comparer \<Rightarrow> snapshot \<Rightarrow> snapshot \<Rightarrow> string
    \<Rightarrow> Outcome" where
  "classify md5 c S T k =
     (case map_of S k of
        None \<Rightarrow> ExtraInTarget
      | Some s \<Rightarrow>
          (case map_of T k of
             None \<Rightarrow> MissingInTarget
           | Some t \<Rightarrow>
               if mSize s \<noteq> mSize t then SizeMismatch
               else if \<not> ignore_etags c \<and> mETag s \<noteq> mETag t then IntegrityTagMismatch
               else if compare_hashes c \<and> verify_equal md5 c k \<noteq> Equal then ContentMismatch
               else Matched))"

text \<open>The outcome that a key of the \<^verbatim>\<open>differences\<close> dictionary stands for.\<close>

fun outcome_of :: "diff_type \<Rightarrow> Outcome" where
  "outcome_of extra_in_target = ExtraInTarget"
| "outcome_of missing_in_target = MissingInTarget"
| "outcome_of size_mismatch = SizeMismatch"
| "outcome_of etag_mismatch = IntegrityTagMismatch"
| "outcome_of content_mismatch = ContentMismatch"

text \<open>The keys reported under a difference type: the stored set, or none when the
  dictionary has no such entry.\<close>

definition keys_in :: "differences \<Rightarrow> diff_type \<Rightarrow> string set" where
  "keys_in d t = (case map_of d t of None \<Rightarrow> {} | Some keys \<Rightarrow> keys)"

text \<open>Exchanging the roles of source and target: of the comparer, and of the
  difference types.\<close>

definition swap :: "comparer \<Rightarrow> comparer" where
  "swap c = c\<lparr>source_bucket := target_bucket c, target_bucket := source_bucket c,
              source_s3 := target_s3 c, target_s3 := source_s3 c\<rparr>"

fun swap_type :: "diff_type \<Rightarrow> diff_type" where
  "swap_type extra_in_target = missing_in_target"
| "swap_type missing_in_target = extra_in_target"
| "swap_type t = t"

text \<open>A listing that yields the given pages and ends without raising, and one that
  raises after them.\<close>

fun pages_then :: "page list \<Rightarrow> pager \<Rightarrow> pager" where
  "pages_then [] p = p"
| "pages_then (pg # pgs) p = Yield pg (pages_then pgs p)"

text \<open>All objects listed by a sequence of pages, in listing order.\<close>

definition listed :: "page list \<Rightarrow> s3_object list" where
  "listed pgs = concat (map (\<lambda>pg. case Contents pg of None \<Rightarrow> [] | Some objs \<Rightarrow> objs) pgs)"

text \<open>The entry that \<^const>\<open>store_object\<close> writes for a listed object.\<close>

definition entry :: "s3_object \<Rightarrow> string \<times> metadata" where
  "entry obj =
     (Key obj, \<lparr>mSize = Size obj, mETag = ETag obj, mLastModified = LastModified obj\<rparr>)"

text \<open>Exchanging the roles of source and target in an outcome.\<close>

fun swap_outcome :: "Outcome \<Rightarrow> Outcome" where
  "swap_outcome MissingInTarget = ExtraInTarget"
| "swap_outcome ExtraInTarget = MissingInTarget"
| "swap_outcome oc = oc"

section \<open>A small world for concrete runs\<close>

text \<open>
  Two buckets \<open>src\<close> and \<open>tgt\<close> behind one client, and a stand-in digest. The keys cover
  every branch of the loop: \<open>a\<close> agrees, \<open>b\<close> is only in the source, \<open>c\<close> only in the
  target, \<open>s\<close> differs in size, \<open>t\<close> in tag, \<open>h\<close> in content only, and the body of \<open>e\<close>
  cannot be fetched from the source and breaks while being read from the target.
\<close>

definition ex_md5 :: "bytes \<Rightarrow> string" where
  "ex_md5 h = rev h"

definition ex_obj :: "string \<Rightarrow> int \<Rightarrow> string \<Rightarrow> s3_object" where
  "ex_obj k n tag = \<lparr>Key = k, Size = n, ETag = tag, LastModified = 0\<rparr>"

definition ex_meta :: "int \<Rightarrow> string \<Rightarrow> metadata" where
  "ex_meta n tag = \<lparr>mSize = n, mETag = tag, mLastModified = 0\<rparr>"

definition ex_src_pages :: "page list" where
  "ex_src_pages =
     [\<lparr>Contents = Some [ex_obj ''a'' 10 ''x'', ex_obj ''b'' 5 ''y'', ex_obj ''s'' 10 ''x'']\<rparr>,
      \<lparr>Contents = None\<rparr>,
      \<lparr>Contents = Some [ex_obj ''t'' 10 ''x'', ex_obj ''h'' 3 ''x'', ex_obj ''e'' 2 ''x'']\<rparr>]"

definition ex_tgt_pages :: "page list" where
  "ex_tgt_pages =
     [\<lparr>Contents = Some [ex_obj ''a'' 10 ''x'', ex_obj ''c'' 1 ''z'', ex_obj ''s'' 20 ''x'',
                        ex_obj ''t'' 10 ''y'', ex_obj ''h'' 3 ''x'', ex_obj ''e'' 2 ''x'']\<rparr>]"

definition ex_paginate :: "string \<Rightarrow> pager" where
  "ex_paginate bucket =
     (if bucket = ''src'' then pages_then ex_src_pages StopIteration
      else if bucket = ''tgt'' then pages_then ex_tgt_pages StopIteration
      else if bucket = ''nil'' then pages_then [\<lparr>Contents = None\<rparr>] StopIteration
      else pages_then [\<lparr>Contents = Some [ex_obj ''a'' 10 ''x'']\<rparr>]
             (Raise (Exception ''NoSuchBucket'')))"

definition ex_get_object :: "string \<Rightarrow> string \<Rightarrow> exn + body" where
  "ex_get_object bucket key =
     (if key = ''e'' then
        (if bucket = ''src'' then Inl (Exception ''AccessDenied'')
         else Inr (Chunk ''p'' (ReadError (Exception ''ConnectionReset''))))
      else if key = ''h'' \<and> bucket = ''tgt'' then Inr (Chunk ''ab'' (Chunk ''d'' Exhausted))
      else Inr (Chunk ''ab'' (Chunk ''c'' (Chunk [] (Chunk ''z'' Exhausted)))))"

definition ex_client :: s3_client where
  "ex_client = \<lparr>paginate = ex_paginate, get_object = ex_get_object\<rparr>"

definition ex_boto3 :: boto3 where
  "ex_boto3 = \<lparr>client = Inr ex_client,
              Session_client = (\<lambda>p. if p = ''dev'' then Inr ex_client
                                     else Inl (Exception ''ProfileNotFound''))\<rparr>"

definition ex_comparer :: "string \<Rightarrow> string \<Rightarrow> bool \<Rightarrow> bool \<Rightarrow> comparer" where
  "ex_comparer src tgt ign cmp =
     \<lparr>source_bucket = src, target_bucket = tgt, source_s3 = ex_client, target_s3 = ex_client,
      ignore_etags = ign, compare_hashes = cmp\<rparr>"

definition ex_args :: "string \<Rightarrow> string \<Rightarrow> bool \<Rightarrow> bool \<Rightarrow> args" where
  "ex_args src tgt ign cmp =
     \<lparr>arg_source_bucket = src, arg_target_bucket = tgt, arg_source_profile = None,
      arg_target_profile = Some ''dev'', arg_ignore_etags = ign, arg_compare_hashes = cmp\<rparr>"

definition ex_S :: snapshot where
  "ex_S = [(''a'', ex_meta 10 ''x''), (''b'', ex_meta 5 ''y''), (''s'', ex_meta 10 ''x''),
           (''t'', ex_meta 10 ''x''), (''h'', ex_meta 3 ''x''), (''e'', ex_meta 2 ''x'')]"

definition ex_T :: snapshot where
  "ex_T = [(''a'', ex_meta 10 ''x''), (''c'', ex_meta 1 ''z''), (''s'', ex_meta 20 ''x''),
           (''t'', ex_meta 10 ''y''), (''h'', ex_meta 3 ''x''), (''e'', ex_meta 2 ''x'')]"

section \<open>The loop and the classification agree\<close>

lemma map_of_add_diff:
  "map_of (add_diff d t k) t' =
     (if t' = t then Some (insert k (keys_in d t)) else map_of d t')"
  by (simp add: add_diff_def keys_in_def map_of_map_default split: option.splits)

lemma outcome_of_inj: "outcome_of t = outcome_of t' \<longleftrightarrow> t = t'"
  by (cases t; cases t'; simp)

lemma outcome_of_not_Matched: "outcome_of t \<noteq> Matched"
  by (cases t; simp)

lemma Outcome_cases:
  "oc = Matched \<or> (\<exists>t. oc = outcome_of t)"
proof (cases oc)
  case MissingInTarget
  then have "oc = outcome_of missing_in_target" by simp
  then show ?thesis by blast
next
  case ExtraInTarget
  then have "oc = outcome_of extra_in_target" by simp
  then show ?thesis by blast
next
  case SizeMismatch
  then have "oc = outcome_of size_mismatch" by simp
  then show ?thesis by blast
next
  case IntegrityTagMismatch
  then have "oc = outcome_of etag_mismatch" by simp
  then show ?thesis by blast
next
  case ContentMismatch
  then have "oc = outcome_of content_mismatch" by simp
  then show ?thesis by blast
next
  case Matched
  then show ?thesis by simp
qed

text \<open>
  The verifier of the code answers \<open>True\<close> exactly when the verifier of the
  specification reports equality: both digests were computed and are the same.
\<close>

lemma compare_file_hashes_verify_equal:
  "compare_file_hashes md5 c k \<longleftrightarrow> verify_equal md5 c k = Equal"
  by (auto simp: compare_file_hashes_def verify_equal_def Let_def split: option.splits)

text \<open>One round of the loop, read through the classification.\<close>

lemma compare_key_differences:
  "map_of (fst (compare_key md5 c S T (d, st) k)) t =
     (if classify md5 c S T k = outcome_of t then Some (insert k (keys_in d t))
      else map_of d t)"
  by (cases t)
    (auto simp: compare_key_def classify_def compare_file_hashes_verify_equal map_of_add_diff
       split: option.splits)

lemma compare_key_stats:
  "snd (compare_key md5 c S T (d, st) k) =
     (if classify md5 c S T k = Matched then st\<lparr>matched_files := matched_files st + 1\<rparr>
      else st)"
  by (simp add: compare_key_def classify_def compare_file_hashes_verify_equal
      split: option.splits)

lemma compare_key_distinct:
  "distinct (map fst d) \<Longrightarrow> distinct (map fst (fst (compare_key md5 c S T (d, st) k)))"
  by (simp add: compare_key_def add_diff_def distinct_map_default split: option.splits)

text \<open>The whole loop, from any starting dictionaries.\<close>

lemma foldl_compare_key_differences:
  "map_of (fst (foldl (compare_key md5 c S T) (d, st) ks)) t =
     (if {k \<in> set ks. classify md5 c S T k = outcome_of t} = {} then map_of d t
      else Some (keys_in d t \<union> {k \<in> set ks. classify md5 c S T k = outcome_of t}))"
proof (induction ks arbitrary: d st)
  case Nil
  show ?case by simp
next
  case (Cons k ks)
  obtain d' st' where step: "compare_key md5 c S T (d, st) k = (d', st')"
    by (cases "compare_key md5 c S T (d, st) k")
  have d': "map_of d' t =
     (if classify md5 c S T k = outcome_of t then Some (insert k (keys_in d t))
      else map_of d t)"
    using compare_key_differences [of md5 c S T d st k t] step by simp
  then have k': "keys_in d' t =
     (if classify md5 c S T k = outcome_of t then insert k (keys_in d t)
      else keys_in d t)"
    by (simp add: keys_in_def)
  show ?case
    using Cons.IH [of d' st'] by (auto simp: step d' k')
qed

lemma foldl_compare_key_stats:
  "snd (foldl (compare_key md5 c S T) (d, st) ks) =
     st\<lparr>matched_files :=
          matched_files st + length (filter (\<lambda>k. classify md5 c S T k = Matched) ks)\<rparr>"
proof (induction ks arbitrary: d st)
  case Nil
  show ?case by simp
next
  case (Cons k ks)
  obtain d' st' where step: "compare_key md5 c S T (d, st) k = (d', st')"
    by (cases "compare_key md5 c S T (d, st) k")
  have "st' =
     (if classify md5 c S T k = Matched then st\<lparr>matched_files := matched_files st + 1\<rparr>
      else st)"
    using compare_key_stats [of md5 c S T d st k] step by simp
  then show ?case
    using Cons.IH [of d' st'] by (simp add: step)
qed

lemma foldl_compare_key_distinct:
  "distinct (map fst d) \<Longrightarrow>
     distinct (map fst (fst (foldl (compare_key md5 c S T) (d, st) ks)))"
proof (induction ks arbitrary: d st)
  case Nil
  then show ?case by simp
next
  case (Cons k ks)
  obtain d' st' where step: "compare_key md5 c S T (d, st) k = (d', st')"
    by (cases "compare_key md5 c S T (d, st) k")
  have "distinct (map fst d')"
    using compare_key_distinct [OF Cons.prems, of md5 c S T st k] step by simp
  then show ?case
    using Cons.IH [of d' st'] by (simp add: step)
qed

text \<open>The loop as \<^verbatim>\<open>compare_buckets\<close> runs it: from the empty dictionary.\<close>

lemma compare_keys_map_of:
  "map_of (fst (compare_keys md5 c S T ks)) t =
     (if {k \<in> set ks. classify md5 c S T k = outcome_of t} = {} then None
      else Some {k \<in> set ks. classify md5 c S T k = outcome_of t})"
  by (simp add: compare_keys_def foldl_compare_key_differences keys_in_def)

lemma compare_keys_keys_in:
  "keys_in (fst (compare_keys md5 c S T ks)) t =
     {k \<in> set ks. classify md5 c S T k = outcome_of t}"
  by (simp add: keys_in_def compare_keys_map_of)

lemma compare_keys_stats:
  "snd (compare_keys md5 c S T ks) =
     \<lparr>total_files = length ks,
      matched_files = length (filter (\<lambda>k. classify md5 c S T k = Matched) ks)\<rparr>"
  by (simp add: compare_keys_def foldl_compare_key_stats)

lemma compare_keys_distinct: "distinct (map fst (fst (compare_keys md5 c S T ks)))"
  by (simp add: compare_keys_def foldl_compare_key_distinct)

lemma set_all_keys: "set (all_keys S T) = fst ` set S \<union> fst ` set T"
  by (simp add: all_keys_def)

lemma distinct_all_keys: "distinct (all_keys S T)"
  by (simp add: all_keys_def)

lemma length_filter_card:
  "distinct ks \<Longrightarrow> length (filter P ks) = card {k \<in> set ks. P k}"
proof -
  assume "distinct ks"
  then have "distinct (filter P ks)" by simp
  then have "card (set (filter P ks)) = length (filter P ks)" by (rule distinct_card)
  then show ?thesis by simp
qed

text \<open>
  The iteration order of the key set does not matter: two enumerations of the same keys
  give the same sets per difference type and the same counters.
\<close>

lemma compare_keys_order:
  assumes "distinct ks" and "distinct ks'" and "set ks = set ks'"
  shows "map_of (fst (compare_keys md5 c S T ks)) = map_of (fst (compare_keys md5 c S T ks'))"
    and "snd (compare_keys md5 c S T ks) = snd (compare_keys md5 c S T ks')"
proof -
  show "map_of (fst (compare_keys md5 c S T ks)) = map_of (fst (compare_keys md5 c S T ks'))"
    by (rule ext) (simp add: compare_keys_map_of assms(3))
  have "length ks = length ks'"
    using assms distinct_card [of ks] distinct_card [of ks'] by simp
  then show "snd (compare_keys md5 c S T ks) = snd (compare_keys md5 c S T ks')"
    by (simp add: compare_keys_stats length_filter_card assms)
qed

lemma compare_objects_map_of:
  "map_of (fst (compare_objects md5 c S T)) t =
     (if {k \<in> fst ` set S \<union> fst ` set T. classify md5 c S T k = outcome_of t} = {} then None
      else Some {k \<in> fst ` set S \<union> fst ` set T. classify md5 c S T k = outcome_of t})"
  by (simp add: compare_objects_def compare_keys_map_of set_all_keys)

lemma compare_objects_keys_in:
  "keys_in (fst (compare_objects md5 c S T)) t =
     {k \<in> fst ` set S \<union> fst ` set T. classify md5 c S T k = outcome_of t}"
  by (simp add: keys_in_def compare_objects_map_of)

lemma compare_objects_total:
  "total_files (snd (compare_objects md5 c S T)) = card (fst ` set S \<union> fst ` set T)"
proof -
  have "length (all_keys S T) = card (set (all_keys S T))"
    using distinct_card [OF distinct_all_keys, of S T] by simp
  then show ?thesis
    by (simp add: compare_objects_def compare_keys_stats set_all_keys)
qed

lemma compare_objects_matched:
  "matched_files (snd (compare_objects md5 c S T)) =
     card {k \<in> fst ` set S \<union> fst ` set T. classify md5 c S T k = Matched}"
  using length_filter_card [OF distinct_all_keys, of "\<lambda>k. classify md5 c S T k = Matched" S T]
  by (simp add: compare_objects_def compare_keys_stats set_all_keys)

lemma compare_objects_distinct: "distinct (map fst (fst (compare_objects md5 c S T)))"
  by (simp add: compare_objects_def compare_keys_distinct)

text \<open>The keys reported under no difference type are the ones classified as matched.\<close>

lemma compare_objects_unreported:
  "(fst ` set S \<union> fst ` set T) - (\<Union>t. keys_in (fst (compare_objects md5 c S T)) t) =
     {k \<in> fst ` set S \<union> fst ` set T. classify md5 c S T k = Matched}"
proof (rule set_eqI)
  fix k
  show "k \<in> (fst ` set S \<union> fst ` set T) - (\<Union>t. keys_in (fst (compare_objects md5 c S T)) t)
      \<longleftrightarrow> k \<in> {k \<in> fst ` set S \<union> fst ` set T. classify md5 c S T k = Matched}"
    using Outcome_cases [of "classify md5 c S T k"] outcome_of_not_Matched
    by (simp add: compare_objects_keys_in) metis
qed

lemma compare_buckets_Inr:
  assumes "get_bucket_objects (source_s3 c) (source_bucket c) = Inr S"
    and "get_bucket_objects (target_s3 c) (target_bucket c) = Inr T"
  shows "compare_buckets md5 c = Inr (compare_objects md5 c S T)"
  using assms by (simp add: compare_buckets_def)

lemma compare_buckets_InrD:
  assumes "compare_buckets md5 c = Inr r"
  shows "\<exists>S T. get_bucket_objects (source_s3 c) (source_bucket c) = Inr S
           \<and> get_bucket_objects (target_s3 c) (target_bucket c) = Inr T
           \<and> r = compare_objects md5 c S T"
  using assms by (auto simp: compare_buckets_def split: sum.splits)

lemma compare_objects_stats:
  "snd (compare_objects md5 c S T) =
     \<lparr>total_files = card (fst ` set S \<union> fst ` set T),
      matched_files = card {k \<in> fst ` set S \<union> fst ` set T. classify md5 c S T k = Matched}\<rparr>"
proof -
  have "snd (compare_objects md5 c S T) =
      \<lparr>total_files = total_files (snd (compare_objects md5 c S T)),
       matched_files = matched_files (snd (compare_objects md5 c S T))\<rparr>"
    by simp
  then show ?thesis
    by (simp only: compare_objects_total compare_objects_matched)
qed

text \<open>Every key has one of the six outcomes, so the six classes add up.\<close>

lemma length_by_outcome:
  fixes f :: "'a \<Rightarrow> Outcome"
  shows "length ks =
     length (filter (\<lambda>k. f k = Matched) ks)
     + (length (filter (\<lambda>k. f k = ExtraInTarget) ks)
        + length (filter (\<lambda>k. f k = MissingInTarget) ks)
        + length (filter (\<lambda>k. f k = SizeMismatch) ks)
        + length (filter (\<lambda>k. f k = IntegrityTagMismatch) ks)
        + length (filter (\<lambda>k. f k = ContentMismatch) ks))"
proof (induction ks)
  case Nil
  show ?case by simp
next
  case (Cons k ks)
  then show ?case by (cases "f k") simp_all
qed

lemma card_by_outcome:
  fixes f :: "string \<Rightarrow> Outcome"
  assumes "distinct ks"
  shows "card (set ks) =
     card {k \<in> set ks. f k = Matched}
     + (card {k \<in> set ks. f k = ExtraInTarget}
        + card {k \<in> set ks. f k = MissingInTarget}
        + card {k \<in> set ks. f k = SizeMismatch}
        + card {k \<in> set ks. f k = IntegrityTagMismatch}
        + card {k \<in> set ks. f k = ContentMismatch})"
  using length_by_outcome [of ks f] assms
  by (simp only: length_filter_card [OF assms, symmetric] distinct_card)

text \<open>The classification under an exchange of source and target.\<close>

lemma verify_equal_swap: "verify_equal md5 (swap c) k = verify_equal md5 c k"
  by (auto simp: verify_equal_def swap_def split: option.splits)

lemma compare_file_hashes_swap:
  "compare_file_hashes md5 (swap c) k = compare_file_hashes md5 c k"
  by (simp add: compare_file_hashes_verify_equal verify_equal_swap)

lemma classify_swap:
  "k \<in> fst ` set S \<union> fst ` set T \<Longrightarrow>
     classify md5 (swap c) T S k = swap_outcome (classify md5 c S T k)"
proof -
  assume "k \<in> fst ` set S \<union> fst ` set T"
  then have "map_of S k \<noteq> None \<or> map_of T k \<noteq> None"
    by (auto simp: map_of_eq_None_iff)
  moreover have "ignore_etags (swap c) = ignore_etags c"
    and "compare_hashes (swap c) = compare_hashes c"
    by (simp_all add: swap_def)
  ultimately show ?thesis
    by (auto simp: classify_def verify_equal_swap split: option.splits)
qed

lemma outcome_of_swap_type: "outcome_of (swap_type t) = swap_outcome (outcome_of t)"
  by (cases t) simp_all

lemma swap_outcome_swap_outcome: "swap_outcome (swap_outcome oc) = oc"
  by (cases oc) simp_all

lemma swap_outcome_eq_iff: "swap_outcome oc = oc' \<longleftrightarrow> oc = swap_outcome oc'"
  by (cases oc; cases oc'; simp)

lemma classified_swap:
  "{k \<in> fst ` set T \<union> fst ` set S. classify md5 (swap c) T S k = oc} =
     {k \<in> fst ` set S \<union> fst ` set T. classify md5 c S T k = swap_outcome oc}"
proof (rule set_eqI)
  fix k
  show "k \<in> {k \<in> fst ` set T \<union> fst ` set S. classify md5 (swap c) T S k = oc} \<longleftrightarrow>
        k \<in> {k \<in> fst ` set S \<union> fst ` set T. classify md5 c S T k = swap_outcome oc}"
  proof (cases "k \<in> fst ` set S \<union> fst ` set T")
    case True
    then show ?thesis
      using classify_swap [OF True, of md5 c] by (auto simp: swap_outcome_eq_iff)
  next
    case False
    then show ?thesis by auto
  qed
qed


lemma compare_objects_stats_swap:
  "snd (compare_objects md5 (swap c) T S) = snd (compare_objects md5 c S T)"
proof -
  have "{k \<in> fst ` set T \<union> fst ` set S. classify md5 (swap c) T S k = Matched} =
      {k \<in> fst ` set S \<union> fst ` set T. classify md5 c S T k = Matched}"
    using classified_swap [of T S md5 c Matched] by simp
  moreover have "fst ` set T \<union> fst ` set S = fst ` set S \<union> fst ` set T"
    by (rule Un_commute)
  ultimately show ?thesis
    by (simp only: compare_objects_stats)
qed

text \<open>Listings: the pages of a listing that ends normally are all taken in; a listing
  that raises gives no snapshot.\<close>

lemma pager_shape:
  "\<exists>pgs. p = pages_then pgs StopIteration \<or> (\<exists>e. p = pages_then pgs (Raise e))"
proof (induction p)
  case StopIteration
  have "StopIteration = pages_then [] StopIteration" by simp
  then show ?case by blast
next
  case (Yield pg rest)
  then obtain pgs where
    "rest = pages_then pgs StopIteration \<or> (\<exists>e. rest = pages_then pgs (Raise e))"
    by blast
  then have "Yield pg rest = pages_then (pg # pgs) StopIteration
      \<or> (\<exists>e. Yield pg rest = pages_then (pg # pgs) (Raise e))"
    by auto
  then show ?case by blast
next
  case (Raise e)
  have "Raise e = pages_then [] (Raise e)" by simp
  then show ?case by blast
qed

lemma drain_pages_then: "drain objects (pages_then pgs p) = drain (foldl add_page objects pgs) p"
  by (induction pgs arbitrary: objects) simp_all

lemma foldl_add_page: "foldl add_page objects pgs = foldl store_object objects (listed pgs)"
proof (induction pgs arbitrary: objects)
  case Nil
  show ?case by (simp add: listed_def)
next
  case (Cons pg pgs)
  have "listed (pg # pgs) = (case Contents pg of None \<Rightarrow> [] | Some objs \<Rightarrow> objs) @ listed pgs"
    by (simp add: listed_def)
  then show ?case
    using Cons.IH [of "add_page objects pg"]
    by (simp add: add_page_def split: option.splits)
qed

lemma map_of_store_object:
  "map_of (store_object objects obj) = (map_of objects)(fst (entry obj) \<mapsto> snd (entry obj))"
  by (simp add: store_object_def entry_def update_conv')

lemma map_of_foldl_store_object:
  "map_of (foldl store_object objects objs) = map_of objects ++ map_of (rev (map entry objs))"
proof (induction objs arbitrary: objects)
  case Nil
  show ?case by simp
next
  case (Cons obj objs)
  have "map_of (foldl store_object objects (obj # objs)) =
      map_of (store_object objects obj) ++ map_of (rev (map entry objs))"
    using Cons.IH [of "store_object objects obj"] by simp
  also have "\<dots> = map_of objects ++ map_of (rev (map entry (obj # objs)))"
    by (rule ext) (simp add: map_of_store_object map_add_def split: option.splits)
  finally show ?case .
qed

lemma keys_store_object:
  "fst ` set (store_object objects obj) = insert (Key obj) (fst ` set objects)"
  by (simp add: store_object_def dom_update)

lemma keys_foldl_store_object:
  "fst ` set (foldl store_object objects objs) = fst ` set objects \<union> Key ` set objs"
  by (induction objs arbitrary: objects) (auto simp: keys_store_object)

lemma distinct_foldl_store_object:
  "distinct (map fst objects) \<Longrightarrow> distinct (map fst (foldl store_object objects objs))"
  by (induction objs arbitrary: objects) (simp_all add: store_object_def distinct_update)

lemma get_bucket_objects_drained:
  assumes "paginate s3 bucket = pages_then pgs StopIteration"
  shows "get_bucket_objects s3 bucket = Inr (foldl store_object [] (listed pgs))"
  using assms by (simp add: get_bucket_objects_def drain_pages_then foldl_add_page)

lemma get_bucket_objects_raised:
  assumes "paginate s3 bucket = pages_then pgs (Raise e)"
  shows "get_bucket_objects s3 bucket = Inl e"
  using assms by (simp add: get_bucket_objects_def drain_pages_then)

text \<open>The test of \<^verbatim>\<open>main\<close> on a dictionary: some difference type has keys.\<close>

lemma any_values_keys_in:
  assumes "distinct (map fst d)"
  shows "any_values d \<longleftrightarrow> (\<exists>t. keys_in d t \<noteq> {})"
proof
  assume "any_values d"
  then have "\<exists>p \<in> set d. snd p \<noteq> {}"
    by (simp add: any_values_def list_ex_iff)
  then obtain t keys where "(t, keys) \<in> set d" and "keys \<noteq> {}"
    by (metis prod.collapse)
  then have "keys_in d t \<noteq> {}"
    using assms by (simp add: keys_in_def)
  then show "\<exists>t. keys_in d t \<noteq> {}" ..
next
  assume "\<exists>t. keys_in d t \<noteq> {}"
  then obtain t keys where "map_of d t = Some keys" and "keys \<noteq> {}"
    by (auto simp: keys_in_def split: option.splits)
  then have "(t, keys) \<in> set d" and "keys \<noteq> {}"
    by (auto dest: map_of_SomeD)
  then show "any_values d"
    by (force simp: any_values_def list_ex_iff)
qed

lemma compare_buckets_distinct:
  assumes "compare_buckets md5 c = Inr (d, st)"
  shows "distinct (map fst d)"
proof -
  obtain S T where "(d, st) = compare_objects md5 c S T"
    using compare_buckets_InrD [OF assms] by blast
  then have "d = fst (compare_objects md5 c S T)"
    by (metis fst_conv)
  then show ?thesis
    by (simp only: compare_objects_distinct)
qed

section \<open>Concrete runs\<close>

lemma ex_list_src: "get_bucket_objects ex_client ''src'' = Inr ex_S"
  by (simp add: get_bucket_objects_def ex_client_def ex_paginate_def ex_src_pages_def
      add_page_def store_object_def ex_obj_def ex_S_def ex_meta_def)

lemma ex_list_tgt: "get_bucket_objects ex_client ''tgt'' = Inr ex_T"
  by (simp add: get_bucket_objects_def ex_client_def ex_paginate_def ex_tgt_pages_def
      add_page_def store_object_def ex_obj_def ex_T_def ex_meta_def)

lemma ex_list_nil: "get_bucket_objects ex_client ''nil'' = Inr []"
  by (simp add: get_bucket_objects_def ex_client_def ex_paginate_def add_page_def)

lemma ex_list_bad: "get_bucket_objects ex_client ''bad'' = Inl (Exception ''NoSuchBucket'')"
  by (simp add: get_bucket_objects_def ex_client_def ex_paginate_def add_page_def)

lemma ex_md5_src_e: "calculate_md5 ex_md5 ex_client ''src'' ''e'' = None"
  by (simp add: calculate_md5_def ex_client_def ex_get_object_def)

lemma ex_md5_tgt_e: "calculate_md5 ex_md5 ex_client ''tgt'' ''e'' = None"
  by (simp add: calculate_md5_def ex_client_def ex_get_object_def)

lemma ex_md5_src_h: "calculate_md5 ex_md5 ex_client ''src'' ''h'' = Some ''cba''"
  by (simp add: calculate_md5_def ex_client_def ex_get_object_def ex_md5_def)

lemma ex_md5_tgt_h: "calculate_md5 ex_md5 ex_client ''tgt'' ''h'' = Some ''dba''"
  by (simp add: calculate_md5_def ex_client_def ex_get_object_def ex_md5_def)

lemma ex_md5_tgt_a: "calculate_md5 ex_md5 ex_client ''tgt'' ''a'' = Some ''cba''"
  by (simp add: calculate_md5_def ex_client_def ex_get_object_def ex_md5_def)

text \<open>Tags compared and contents verified.\<close>

lemma ex_objects_verify:
  "compare_objects ex_md5 (ex_comparer ''src'' ''tgt'' False True) ex_S ex_T =
     ([(missing_in_target, {''b''}), (extra_in_target, {''c''}), (size_mismatch, {''s''}),
       (etag_mismatch, {''t''}), (content_mismatch, {''e'', ''h''})],
      \<lparr>total_files = 7, matched_files = 1\<rparr>)"
  by (simp add: compare_objects_def compare_keys_def all_keys_def ex_S_def ex_T_def
      compare_key_def add_diff_def compare_file_hashes_def calculate_md5_def ex_comparer_def
      ex_client_def ex_get_object_def ex_md5_def ex_meta_def insert_commute)

lemma ex_buckets_verify:
  "compare_buckets ex_md5 (ex_comparer ''src'' ''tgt'' False True) =
     Inr ([(missing_in_target, {''b''}), (extra_in_target, {''c''}), (size_mismatch, {''s''}),
           (etag_mismatch, {''t''}), (content_mismatch, {''e'', ''h''})],
          \<lparr>total_files = 7, matched_files = 1\<rparr>)"
  using ex_objects_verify
  by (simp add: compare_buckets_def ex_comparer_def ex_list_src ex_list_tgt)

text \<open>Tags ignored and contents not verified.\<close>

lemma ex_objects_ignore:
  "compare_objects ex_md5 (ex_comparer ''src'' ''tgt'' True False) ex_S ex_T =
     ([(missing_in_target, {''b''}), (extra_in_target, {''c''}), (size_mismatch, {''s''})],
      \<lparr>total_files = 7, matched_files = 4\<rparr>)"
  by (simp add: compare_objects_def compare_keys_def all_keys_def ex_S_def ex_T_def
      compare_key_def add_diff_def ex_comparer_def ex_meta_def)

text \<open>The same run with source and target exchanged.\<close>

lemma ex_objects_swapped:
  "compare_objects ex_md5 (ex_comparer ''tgt'' ''src'' False True) ex_T ex_S =
     ([(missing_in_target, {''c''}), (extra_in_target, {''b''}), (size_mismatch, {''s''}),
       (etag_mismatch, {''t''}), (content_mismatch, {''e'', ''h''})],
      \<lparr>total_files = 7, matched_files = 1\<rparr>)"
  by (simp add: compare_objects_def compare_keys_def all_keys_def ex_S_def ex_T_def
      compare_key_def add_diff_def compare_file_hashes_def calculate_md5_def ex_comparer_def
      ex_client_def ex_get_object_def ex_md5_def ex_meta_def insert_commute)

lemma ex_init:
  "init ex_boto3 src tgt None (Some ''dev'') ign cmp = Inr (ex_comparer src tgt ign cmp)"
  by (simp add: init_def make_client_def ex_boto3_def ex_comparer_def)

text \<open>Tags ignored and contents verified.\<close>

lemma ex_objects_ignore_verify:
  "compare_objects ex_md5 (ex_comparer ''src'' ''tgt'' True True) ex_S ex_T =
     ([(missing_in_target, {''b''}), (extra_in_target, {''c''}), (size_mismatch, {''s''}),
       (content_mismatch, {''e'', ''h''})],
      \<lparr>total_files = 7, matched_files = 2\<rparr>)"
  by (simp add: compare_objects_def compare_keys_def all_keys_def ex_S_def ex_T_def
      compare_key_def add_diff_def compare_file_hashes_def calculate_md5_def ex_comparer_def
      ex_client_def ex_get_object_def ex_md5_def ex_meta_def insert_commute)

lemma ex_hashes_t: "compare_file_hashes ex_md5 (ex_comparer ''src'' ''tgt'' True True) ''t''"
  by (simp add: compare_file_hashes_def calculate_md5_def ex_comparer_def ex_client_def
      ex_get_object_def)

lemma ex_hashes_h: "\<not> compare_file_hashes ex_md5 (ex_comparer ''src'' ''tgt'' True True) ''h''"
  by (simp add: compare_file_hashes_def calculate_md5_def ex_comparer_def ex_client_def
      ex_get_object_def ex_md5_def)

lemma ex_verify_e:
  "verify_equal ex_md5 (ex_comparer ''src'' ''tgt'' False True) ''e'' = VerificationError"
  by (simp add: verify_equal_def ex_comparer_def ex_md5_src_e)

text \<open>Two empty buckets, and a bucket whose listing raises.\<close>

lemma ex_buckets_nil:
  "compare_buckets ex_md5 (ex_comparer ''nil'' ''nil'' ign cmp) =
     Inr ([], \<lparr>total_files = 0, matched_files = 0\<rparr>)"
  by (simp add: compare_buckets_def ex_comparer_def ex_list_nil compare_objects_def
      compare_keys_def all_keys_def)

lemma ex_buckets_bad:
  "compare_buckets ex_md5 (ex_comparer ''nil'' ''bad'' ign cmp) =
     Inl (Exception ''NoSuchBucket'')"
  by (simp add: compare_buckets_def ex_comparer_def ex_list_nil ex_list_bad)

section \<open>The claims\<close>

text \<open>
  C1. As stated, the claim does not hold: a key whose digest cannot be computed is
  reported under \<^verbatim>\<open>content_mismatch\<close>, the category of a verified inequality, because
  \<^verbatim>\<open>_compare_file_hashes\<close> answers \<open>False\<close> for it. In the run below the body of \<open>e\<close>
  cannot be fetched from the source, and \<open>e\<close> is reported as a content mismatch.
\<close>

theorem failed_digest_counterexample:
  "calculate_md5 ex_md5 ex_client ''src'' ''e'' = None
   \<and> compare_buckets ex_md5 (ex_comparer ''src'' ''tgt'' False True) =
       Inr ([(missing_in_target, {''b''}), (extra_in_target, {''c''}),
             (size_mismatch, {''s''}), (etag_mismatch, {''t''}),
             (content_mismatch, {''e'', ''h''})],
            \<lparr>total_files = 7, matched_files = 1\<rparr>)
   \<and> ''e'' \<in> keys_in
        [(missing_in_target, {''b''}), (extra_in_target, {''c''}),
         (size_mismatch, {''s''}), (etag_mismatch, {''t''}),
         (content_mismatch, {''e'', ''h''})] content_mismatch"
  by (simp add: ex_md5_src_e ex_buckets_verify keys_in_def)

text \<open>
  C1, amended. With content verification on, let a key be present on both sides with
  equal sizes and with equal tags (or tags ignored), and let the digest fail on at least
  one side. Then the run is not aborted: \<^verbatim>\<open>compare_buckets\<close> returns its result whenever
  both listings succeed. In that result the key is reported under \<^verbatim>\<open>content_mismatch\<close>
  and under no other difference type, and it is not counted in \<^verbatim>\<open>matched_files\<close>, which
  is the number of the other keys with outcome \<open>Matched\<close>.
\<close>

theorem failed_digest_is_content_mismatch:
  assumes "get_bucket_objects (source_s3 c) (source_bucket c) = Inr S"
    and "get_bucket_objects (target_s3 c) (target_bucket c) = Inr T"
    and "compare_hashes c"
    and "map_of S k = Some s" and "map_of T k = Some t"
    and "mSize s = mSize t" and "ignore_etags c \<or> mETag s = mETag t"
    and "calculate_md5 md5 (source_s3 c) (source_bucket c) k = None
         \<or> calculate_md5 md5 (target_s3 c) (target_bucket c) k = None"
  shows "\<exists>d st. compare_buckets md5 c = Inr (d, st)
     \<and> k \<in> keys_in d content_mismatch
     \<and> (\<forall>ty. ty \<noteq> content_mismatch \<longrightarrow> k \<notin> keys_in d ty)
     \<and> matched_files st =
         card {k' \<in> fst ` set S \<union> fst ` set T. k' \<noteq> k \<and> classify md5 c S T k' = Matched}"
proof -
  let ?d = "fst (compare_objects md5 c S T)"
  let ?st = "snd (compare_objects md5 c S T)"
  have run: "compare_buckets md5 c = Inr (?d, ?st)"
    using compare_buckets_Inr [OF assms(1) assms(2), of md5] by simp
  have "\<not> compare_file_hashes md5 c k"
    using assms(8) by (auto simp: compare_file_hashes_def Let_def)
  then have cl: "classify md5 c S T k = ContentMismatch"
    using assms(3-7) by (auto simp: classify_def compare_file_hashes_verify_equal)
  have "k \<in> fst ` set S"
    using assms(4) by (metis map_of_SomeD fst_conv image_eqI)
  then have in_cm: "k \<in> keys_in ?d content_mismatch"
    using cl by (simp add: compare_objects_keys_in)
  have others: "\<forall>ty. ty \<noteq> content_mismatch \<longrightarrow> k \<notin> keys_in ?d ty"
  proof (intro allI impI)
    fix ty :: diff_type
    assume "ty \<noteq> content_mismatch"
    then have "outcome_of ty \<noteq> ContentMismatch"
      by (cases ty) simp_all
    then show "k \<notin> keys_in ?d ty"
      using cl by (simp add: compare_objects_keys_in)
  qed
  have "{k' \<in> fst ` set S \<union> fst ` set T. classify md5 c S T k' = Matched} =
      {k' \<in> fst ` set S \<union> fst ` set T. k' \<noteq> k \<and> classify md5 c S T k' = Matched}"
    using cl by auto
  then have cnt: "matched_files ?st =
      card {k' \<in> fst ` set S \<union> fst ` set T. k' \<noteq> k \<and> classify md5 c S T k' = Matched}"
    by (simp only: compare_objects_matched)
  from run in_cm others cnt show ?thesis by blast
qed

theorem failed_digest_is_content_mismatch_witness:
  "get_bucket_objects (source_s3 (ex_comparer ''src'' ''tgt'' True True))
      (source_bucket (ex_comparer ''src'' ''tgt'' True True)) = Inr ex_S
   \<and> get_bucket_objects (target_s3 (ex_comparer ''src'' ''tgt'' True True))
      (target_bucket (ex_comparer ''src'' ''tgt'' True True)) = Inr ex_T
   \<and> compare_hashes (ex_comparer ''src'' ''tgt'' True True)
   \<and> map_of ex_S ''e'' = Some (ex_meta 2 ''x'')
   \<and> map_of ex_T ''e'' = Some (ex_meta 2 ''x'')
   \<and> calculate_md5 ex_md5 (target_s3 (ex_comparer ''src'' ''tgt'' True True))
       (target_bucket (ex_comparer ''src'' ''tgt'' True True)) ''e'' = None
   \<and> (\<exists>d st. compare_buckets ex_md5 (ex_comparer ''src'' ''tgt'' True True) = Inr (d, st)
         \<and> ''e'' \<in> keys_in d content_mismatch
         \<and> ''e'' \<notin> keys_in d size_mismatch
         \<and> matched_files st =
             card {k' \<in> fst ` set ex_S \<union> fst ` set ex_T. k' \<noteq> ''e''
               \<and> classify ex_md5 (ex_comparer ''src'' ''tgt'' True True) ex_S ex_T k'
                   = Matched})"
proof -
  let ?c = "ex_comparer ''src'' ''tgt'' True True"
  have S: "get_bucket_objects (source_s3 ?c) (source_bucket ?c) = Inr ex_S"
    by (simp add: ex_comparer_def ex_list_src)
  have T: "get_bucket_objects (target_s3 ?c) (target_bucket ?c) = Inr ex_T"
    by (simp add: ex_comparer_def ex_list_tgt)
  have h: "compare_hashes ?c"
    by (simp add: ex_comparer_def)
  have s: "map_of ex_S ''e'' = Some (ex_meta 2 ''x'')"
    by (simp add: ex_S_def)
  have t: "map_of ex_T ''e'' = Some (ex_meta 2 ''x'')"
    by (simp add: ex_T_def)
  have sz: "mSize (ex_meta 2 ''x'') = mSize (ex_meta 2 ''x'')"
    by simp
  have tag: "ignore_etags ?c \<or> mETag (ex_meta 2 ''x'') = mETag (ex_meta 2 ''x'')"
    by simp
  have md: "calculate_md5 ex_md5 (target_s3 ?c) (target_bucket ?c) ''e'' = None"
    by (simp add: ex_comparer_def ex_md5_tgt_e)
  then have fail: "calculate_md5 ex_md5 (source_s3 ?c) (source_bucket ?c) ''e'' = None
      \<or> calculate_md5 ex_md5 (target_s3 ?c) (target_bucket ?c) ''e'' = None"
    by (rule disjI2)
  have diff: "size_mismatch \<noteq> content_mismatch"
    by simp
  show ?thesis
    using S T h s t md diff failed_digest_is_content_mismatch [OF S T h s t sz tag fail]
    by blast
qed

text \<open>
  C2. For every pair of snapshots: \<^verbatim>\<open>total_files\<close> is the number of keys in the union of
  the two key sets; the sets reported under the difference types lie in the union and
  are pairwise disjoint; \<^verbatim>\<open>matched_files\<close> is the number of keys of the union reported
  under no difference type; and \<^verbatim>\<open>matched_files\<close> plus the sizes of the five difference
  sets is \<^verbatim>\<open>total_files\<close>. So every key of the union is in exactly one category.
\<close>

theorem compare_objects_totals:
  "total_files (snd (compare_objects md5 c S T)) = card (fst ` set S \<union> fst ` set T)
   \<and> (\<forall>t. keys_in (fst (compare_objects md5 c S T)) t \<subseteq> fst ` set S \<union> fst ` set T)
   \<and> (\<forall>t t'. t \<noteq> t' \<longrightarrow>
         keys_in (fst (compare_objects md5 c S T)) t
           \<inter> keys_in (fst (compare_objects md5 c S T)) t' = {})
   \<and> matched_files (snd (compare_objects md5 c S T)) =
       card ((fst ` set S \<union> fst ` set T)
             - (\<Union>t. keys_in (fst (compare_objects md5 c S T)) t))
   \<and> matched_files (snd (compare_objects md5 c S T))
       + (card (keys_in (fst (compare_objects md5 c S T)) extra_in_target)
          + card (keys_in (fst (compare_objects md5 c S T)) missing_in_target)
          + card (keys_in (fst (compare_objects md5 c S T)) size_mismatch)
          + card (keys_in (fst (compare_objects md5 c S T)) etag_mismatch)
          + card (keys_in (fst (compare_objects md5 c S T)) content_mismatch))
       = total_files (snd (compare_objects md5 c S T))"
proof -
  let ?U = "fst ` set S \<union> fst ` set T"
  let ?d = "fst (compare_objects md5 c S T)"
  let ?st = "snd (compare_objects md5 c S T)"
  let ?f = "classify md5 c S T"
  have total: "total_files ?st = card ?U"
    by (rule compare_objects_total)
  have sub: "\<forall>t. keys_in ?d t \<subseteq> ?U"
    by (auto simp: compare_objects_keys_in)
  have disj: "\<forall>t t'. t \<noteq> t' \<longrightarrow> keys_in ?d t \<inter> keys_in ?d t' = {}"
    by (auto simp: compare_objects_keys_in outcome_of_inj)
  have "?U - (\<Union>t. keys_in ?d t) = {k \<in> ?U. ?f k = Matched}"
  proof (rule set_eqI)
    fix k
    show "k \<in> ?U - (\<Union>t. keys_in ?d t) \<longleftrightarrow> k \<in> {k \<in> ?U. ?f k = Matched}"
      using Outcome_cases [of "?f k"] outcome_of_not_Matched
      by (simp add: compare_objects_keys_in) metis
  qed
  then have rest: "matched_files ?st = card (?U - (\<Union>t. keys_in ?d t))"
    by (simp only: compare_objects_matched)
  have "card (set (all_keys S T)) =
     card {k \<in> set (all_keys S T). ?f k = Matched}
     + (card {k \<in> set (all_keys S T). ?f k = ExtraInTarget}
        + card {k \<in> set (all_keys S T). ?f k = MissingInTarget}
        + card {k \<in> set (all_keys S T). ?f k = SizeMismatch}
        + card {k \<in> set (all_keys S T). ?f k = IntegrityTagMismatch}
        + card {k \<in> set (all_keys S T). ?f k = ContentMismatch})"
    by (rule card_by_outcome [OF distinct_all_keys])
  then have sum: "matched_files ?st
       + (card (keys_in ?d extra_in_target) + card (keys_in ?d missing_in_target)
          + card (keys_in ?d size_mismatch) + card (keys_in ?d etag_mismatch)
          + card (keys_in ?d content_mismatch))
       = total_files ?st"
    by (simp add: compare_objects_keys_in compare_objects_matched compare_objects_total
        set_all_keys)
  from total sub disj rest sum show ?thesis
    by (intro conjI)
qed

theorem compare_objects_totals_witness:
  "total_files (snd (compare_objects ex_md5 (ex_comparer ''src'' ''tgt'' False True) ex_S ex_T))
     = card (fst ` set ex_S \<union> fst ` set ex_T)
   \<and> card (fst ` set ex_S \<union> fst ` set ex_T) = 7
   \<and> matched_files
       (snd (compare_objects ex_md5 (ex_comparer ''src'' ''tgt'' False True) ex_S ex_T)) = 1
   \<and> (1::nat) + (card {''c''} + card {''b''} + card {''s''} + card {''t''}
         + card {''e'', ''h''}) = 7"
  using compare_objects_totals [of ex_md5 "ex_comparer ''src'' ''tgt'' False True" ex_S ex_T]
  by (simp add: ex_objects_verify keys_in_def)

text \<open>
  C3. As stated, the claim does not hold at its fifth step. The stated order makes a
  key a content mismatch only when the verification reports inequality, and matched
  otherwise. In the run below the digest of \<open>e\<close> cannot be computed, so the verification
  reports nothing and the stated order makes \<open>e\<close> matched; the code reports \<open>e\<close> under
  \<^verbatim>\<open>content_mismatch\<close>.
\<close>

theorem decision_order_counterexample:
  "''e'' \<in> fst ` set ex_S \<union> fst ` set ex_T
   \<and> verify_equal ex_md5 (ex_comparer ''src'' ''tgt'' False True) ''e'' = VerificationError
   \<and> classify_stated ex_md5 (ex_comparer ''src'' ''tgt'' False True) ex_S ex_T ''e'' = Matched
   \<and> ''e'' \<in> keys_in
        (fst (compare_objects ex_md5 (ex_comparer ''src'' ''tgt'' False True) ex_S ex_T))
        content_mismatch"
proof -
  have "''e'' \<in> fst ` set ex_S \<union> fst ` set ex_T"
    by (simp add: ex_S_def)
  moreover have "classify_stated ex_md5 (ex_comparer ''src'' ''tgt'' False True) ex_S ex_T ''e''
      = Matched"
    by (simp add: classify_stated_def ex_verify_e ex_S_def ex_T_def ex_meta_def)
  moreover have "''e'' \<in> keys_in
      (fst (compare_objects ex_md5 (ex_comparer ''src'' ''tgt'' False True) ex_S ex_T))
      content_mismatch"
    by (simp add: ex_objects_verify keys_in_def)
  ultimately show ?thesis
    using ex_verify_e by (intro conjI)
qed

text \<open>
  C3, amended. The loop assigns every key of the union the outcome of this decision
  order (\<^const>\<open>classify\<close>): extra in target if the key is absent from the source; else
  missing in target if it is absent from the target; else size mismatch if the sizes
  differ; else tag mismatch if tags are not ignored and differ; else content mismatch
  if contents are verified and the verification does not report equality, because it
  reports inequality or because a digest could not be computed; else matched. The keys
  reported under a difference type are exactly the keys of the union with that outcome,
  and \<^verbatim>\<open>matched_files\<close> counts exactly the keys whose outcome is \<open>Matched\<close>.
\<close>

theorem compare_objects_decision_order:
  "keys_in (fst (compare_objects md5 c S T)) t =
     {k \<in> fst ` set S \<union> fst ` set T. classify md5 c S T k = outcome_of t}
   \<and> matched_files (snd (compare_objects md5 c S T)) =
       card {k \<in> fst ` set S \<union> fst ` set T. classify md5 c S T k = Matched}"
  by (simp only: compare_objects_keys_in compare_objects_matched)

theorem compare_objects_decision_order_witness:
  "{k \<in> fst ` set ex_S \<union> fst ` set ex_T.
      classify ex_md5 (ex_comparer ''src'' ''tgt'' False True) ex_S ex_T k
        = outcome_of content_mismatch} = {''e'', ''h''}
   \<and> {k \<in> fst ` set ex_S \<union> fst ` set ex_T.
      classify ex_md5 (ex_comparer ''src'' ''tgt'' False True) ex_S ex_T k
        = outcome_of etag_mismatch} = {''t''}
   \<and> card {k \<in> fst ` set ex_S \<union> fst ` set ex_T.
      classify ex_md5 (ex_comparer ''src'' ''tgt'' False True) ex_S ex_T k = Matched} = 1"
  using compare_objects_decision_order
    [of ex_md5 "ex_comparer ''src'' ''tgt'' False True" ex_S ex_T content_mismatch]
    compare_objects_decision_order
    [of ex_md5 "ex_comparer ''src'' ''tgt'' False True" ex_S ex_T etag_mismatch]
  by (simp add: ex_objects_verify keys_in_def)

text \<open>
  C4. Exchanging source and target (the two snapshots, and the buckets and clients used
  for content verification) exchanges the entries \<^verbatim>\<open>missing_in_target\<close> and
  \<^verbatim>\<open>extra_in_target\<close> of the differences and leaves every other entry and both counters
  as they were; per key, the outcome is the same up to the exchange of
  \<open>MissingInTarget\<close> and \<open>ExtraInTarget\<close>.
\<close>

theorem compare_objects_swap:
  "map_of (fst (compare_objects md5 (swap c) T S)) t =
     map_of (fst (compare_objects md5 c S T)) (swap_type t)
   \<and> snd (compare_objects md5 (swap c) T S) = snd (compare_objects md5 c S T)
   \<and> (\<forall>k \<in> fst ` set S \<union> fst ` set T.
         classify md5 (swap c) T S k = swap_outcome (classify md5 c S T k))"
proof -
  have "map_of (fst (compare_objects md5 (swap c) T S)) t =
     map_of (fst (compare_objects md5 c S T)) (swap_type t)"
    by (simp only: compare_objects_map_of classified_swap outcome_of_swap_type)
  moreover have "snd (compare_objects md5 (swap c) T S) = snd (compare_objects md5 c S T)"
    by (rule compare_objects_stats_swap)
  moreover have "\<forall>k \<in> fst ` set S \<union> fst ` set T.
      classify md5 (swap c) T S k = swap_outcome (classify md5 c S T k)"
    using classify_swap by blast
  ultimately show ?thesis by (intro conjI)
qed

theorem compare_objects_swap_witness:
  "map_of (fst (compare_objects ex_md5 (ex_comparer ''tgt'' ''src'' False True) ex_T ex_S))
      missing_in_target = Some {''c''}
   \<and> map_of (fst (compare_objects ex_md5 (ex_comparer ''src'' ''tgt'' False True) ex_S ex_T))
      extra_in_target = Some {''c''}
   \<and> snd (compare_objects ex_md5 (ex_comparer ''tgt'' ''src'' False True) ex_T ex_S) =
       \<lparr>total_files = 7, matched_files = 1\<rparr>
   \<and> ''c'' \<in> fst ` set ex_S \<union> fst ` set ex_T
   \<and> classify ex_md5 (ex_comparer ''tgt'' ''src'' False True) ex_T ex_S ''c''
       = MissingInTarget"
proof -
  have sw: "swap (ex_comparer ''src'' ''tgt'' False True) = ex_comparer ''tgt'' ''src'' False True"
    by (simp add: swap_def ex_comparer_def)
  have c: "''c'' \<in> fst ` set ex_S \<union> fst ` set ex_T"
    by (simp add: ex_T_def)
  have "classify ex_md5 (ex_comparer ''src'' ''tgt'' False True) ex_S ex_T ''c'' = ExtraInTarget"
    by (simp add: classify_def ex_S_def ex_T_def)
  then show ?thesis
    using c compare_objects_swap
      [of ex_md5 "ex_comparer ''src'' ''tgt'' False True" ex_T ex_S missing_in_target]
    by (simp add: sw ex_objects_verify)
qed

text \<open>
  C5. The exit status of \<^verbatim>\<open>main\<close> is \<open>0\<close> when the comparer could be set up, the
  comparison returned, and no difference type has any key; in every other case,
  differences or an exception, it is \<open>1\<close>.
\<close>

theorem main_exit_status:
  "main md5 b a =
     (if \<exists>c d st.
           init b (arg_source_bucket a) (arg_target_bucket a) (arg_source_profile a)
             (arg_target_profile a) (arg_ignore_etags a) (arg_compare_hashes a) = Inr c
           \<and> compare_buckets md5 c = Inr (d, st)
           \<and> (\<forall>t. keys_in d t = {})
      then 0 else 1)"
proof (cases "init b (arg_source_bucket a) (arg_target_bucket a) (arg_source_profile a)
             (arg_target_profile a) (arg_ignore_etags a) (arg_compare_hashes a)")
  case (Inl e)
  then show ?thesis by (simp add: main_def)
next
  case (Inr c)
  show ?thesis
  proof (cases "compare_buckets md5 c")
    case (Inl e)
    with Inr show ?thesis by (simp add: main_def)
  next
    case run: (Inr r)
    obtain d st where r: "r = (d, st)" by (cases r)
    have "any_values d \<longleftrightarrow> (\<exists>t. keys_in d t \<noteq> {})"
      using compare_buckets_distinct [of md5 c d st] run r
      by (simp add: any_values_keys_in)
    with Inr run r show ?thesis by (simp add: main_def)
  qed
qed

theorem main_exit_status_witness:
  "main ex_md5 ex_boto3 (ex_args ''nil'' ''nil'' False True) = 0
   \<and> main ex_md5 ex_boto3 (ex_args ''src'' ''tgt'' False True) = 1
   \<and> main ex_md5 ex_boto3 (ex_args ''nil'' ''bad'' False True) = 1"
proof -
  have i: "init ex_boto3 (arg_source_bucket (ex_args src tgt ign cmp))
      (arg_target_bucket (ex_args src tgt ign cmp)) (arg_source_profile (ex_args src tgt ign cmp))
      (arg_target_profile (ex_args src tgt ign cmp)) (arg_ignore_etags (ex_args src tgt ign cmp))
      (arg_compare_hashes (ex_args src tgt ign cmp)) = Inr (ex_comparer src tgt ign cmp)"
    for src tgt ign cmp
    by (simp add: ex_args_def ex_init)
  have "main ex_md5 ex_boto3 (ex_args ''nil'' ''nil'' False True) = 0"
    using main_exit_status [of ex_md5 ex_boto3 "ex_args ''nil'' ''nil'' False True"]
    by (simp add: i ex_buckets_nil keys_in_def)
  moreover have "keys_in [(missing_in_target, {''b''}), (extra_in_target, {''c''}),
      (size_mismatch, {''s''}), (etag_mismatch, {''t''}), (content_mismatch, {''e'', ''h''})]
      size_mismatch \<noteq> {}"
    by (simp add: keys_in_def)
  then have "main ex_md5 ex_boto3 (ex_args ''src'' ''tgt'' False True) = 1"
    using main_exit_status [of ex_md5 ex_boto3 "ex_args ''src'' ''tgt'' False True"]
    by (auto simp: i ex_buckets_verify)
  moreover have "main ex_md5 ex_boto3 (ex_args ''nil'' ''bad'' False True) = 1"
    using main_exit_status [of ex_md5 ex_boto3 "ex_args ''nil'' ''bad'' False True"]
    by (simp add: i ex_buckets_bad)
  ultimately show ?thesis by (intro conjI)
qed

text \<open>
  C6. A listing that ends without raising is taken in whole: \<^verbatim>\<open>get_bucket_objects\<close>
  returns a dictionary whose keys are exactly the keys listed on all pages, each with
  the metadata of its last listing. A listing that raises after any number of pages
  makes \<^verbatim>\<open>get_bucket_objects\<close> raise the same exception, and nothing of the pages read
  so far is returned. That exception leaves \<^verbatim>\<open>compare_buckets\<close>, for the source listing
  and for the target listing, and \<^verbatim>\<open>main\<close> then exits with status \<open>1\<close>. The listing is
  requested once; there is no second attempt.
\<close>

theorem get_bucket_objects_all_or_nothing:
  "(paginate s3 bucket = pages_then pgs StopIteration \<longrightarrow>
      (\<exists>objects. get_bucket_objects s3 bucket = Inr objects
         \<and> distinct (map fst objects)
         \<and> fst ` set objects = Key ` set (listed pgs)
         \<and> map_of objects = map_of (rev (map entry (listed pgs)))))
   \<and> (paginate s3 bucket = pages_then pgs (Raise e) \<longrightarrow> get_bucket_objects s3 bucket = Inl e)
   \<and> (get_bucket_objects (source_s3 c) (source_bucket c) = Inl e \<longrightarrow>
        compare_buckets md5 c = Inl e)
   \<and> (get_bucket_objects (source_s3 c) (source_bucket c) = Inr S
        \<and> get_bucket_objects (target_s3 c) (target_bucket c) = Inl e \<longrightarrow>
        compare_buckets md5 c = Inl e)
   \<and> (init b (arg_source_bucket a) (arg_target_bucket a) (arg_source_profile a)
          (arg_target_profile a) (arg_ignore_etags a) (arg_compare_hashes a) = Inr c
        \<and> compare_buckets md5 c = Inl e \<longrightarrow>
        main md5 b a = 1)"
proof (intro conjI impI)
  assume "paginate s3 bucket = pages_then pgs StopIteration"
  then have "get_bucket_objects s3 bucket = Inr (foldl store_object [] (listed pgs))"
    by (rule get_bucket_objects_drained)
  moreover have "distinct (map fst (foldl store_object [] (listed pgs)))"
    by (simp add: distinct_foldl_store_object)
  moreover have "fst ` set (foldl store_object [] (listed pgs)) = Key ` set (listed pgs)"
    by (simp add: keys_foldl_store_object)
  moreover have "map_of (foldl store_object [] (listed pgs)) =
      map_of (rev (map entry (listed pgs)))"
    by (simp add: map_of_foldl_store_object)
  ultimately show "\<exists>objects. get_bucket_objects s3 bucket = Inr objects
      \<and> distinct (map fst objects)
      \<and> fst ` set objects = Key ` set (listed pgs)
      \<and> map_of objects = map_of (rev (map entry (listed pgs)))"
    by blast
next
  assume "paginate s3 bucket = pages_then pgs (Raise e)"
  then show "get_bucket_objects s3 bucket = Inl e"
    by (rule get_bucket_objects_raised)
next
  assume "get_bucket_objects (source_s3 c) (source_bucket c) = Inl e"
  then show "compare_buckets md5 c = Inl e"
    by (simp add: compare_buckets_def)
next
  assume "get_bucket_objects (source_s3 c) (source_bucket c) = Inr S
      \<and> get_bucket_objects (target_s3 c) (target_bucket c) = Inl e"
  then show "compare_buckets md5 c = Inl e"
    by (simp add: compare_buckets_def)
next
  assume "init b (arg_source_bucket a) (arg_target_bucket a) (arg_source_profile a)
          (arg_target_profile a) (arg_ignore_etags a) (arg_compare_hashes a) = Inr c
        \<and> compare_buckets md5 c = Inl e"
  then show "main md5 b a = 1"
    by (simp add: main_def)
qed

theorem get_bucket_objects_all_or_nothing_witness:
  "paginate ex_client ''src'' = pages_then ex_src_pages StopIteration
   \<and> (\<exists>objects. get_bucket_objects ex_client ''src'' = Inr objects
         \<and> fst ` set objects = Key ` set (listed ex_src_pages))
   \<and> paginate ex_client ''bad'' =
        pages_then [\<lparr>Contents = Some [ex_obj ''a'' 10 ''x'']\<rparr>] (Raise (Exception ''NoSuchBucket''))
   \<and> get_bucket_objects ex_client ''bad'' = Inl (Exception ''NoSuchBucket'')
   \<and> get_bucket_objects (source_s3 (ex_comparer ''bad'' ''tgt'' False False))
        (source_bucket (ex_comparer ''bad'' ''tgt'' False False)) = Inl (Exception ''NoSuchBucket'')
   \<and> compare_buckets ex_md5 (ex_comparer ''bad'' ''tgt'' False False)
        = Inl (Exception ''NoSuchBucket'')
   \<and> get_bucket_objects (source_s3 (ex_comparer ''nil'' ''bad'' False False))
        (source_bucket (ex_comparer ''nil'' ''bad'' False False)) = Inr []
   \<and> get_bucket_objects (target_s3 (ex_comparer ''nil'' ''bad'' False False))
        (target_bucket (ex_comparer ''nil'' ''bad'' False False)) = Inl (Exception ''NoSuchBucket'')
   \<and> compare_buckets ex_md5 (ex_comparer ''nil'' ''bad'' False False)
        = Inl (Exception ''NoSuchBucket'')
   \<and> main ex_md5 ex_boto3 (ex_args ''nil'' ''bad'' False False) = 1"
proof -
  let ?e = "Exception ''NoSuchBucket''"
  let ?bad = "[\<lparr>Contents = Some [ex_obj ''a'' 10 ''x'']\<rparr>]"
  let ?c1 = "ex_comparer ''bad'' ''tgt'' False False"
  let ?c2 = "ex_comparer ''nil'' ''bad'' False False"
  let ?a = "ex_args ''nil'' ''bad'' False False"
  have p1: "paginate ex_client ''src'' = pages_then ex_src_pages StopIteration"
    by (simp add: ex_client_def ex_paginate_def)
  have p2: "paginate ex_client ''bad'' = pages_then ?bad (Raise ?e)"
    by (simp add: ex_client_def ex_paginate_def)
  have l1: "get_bucket_objects (source_s3 ?c1) (source_bucket ?c1) = Inl ?e"
    by (simp add: ex_comparer_def ex_list_bad)
  have l2: "get_bucket_objects (source_s3 ?c2) (source_bucket ?c2) = Inr []"
    by (simp add: ex_comparer_def ex_list_nil)
  have l3: "get_bucket_objects (target_s3 ?c2) (target_bucket ?c2) = Inl ?e"
    by (simp add: ex_comparer_def ex_list_bad)
  have i: "init ex_boto3 (arg_source_bucket ?a) (arg_target_bucket ?a) (arg_source_profile ?a)
      (arg_target_profile ?a) (arg_ignore_etags ?a) (arg_compare_hashes ?a) = Inr ?c2"
    by (simp add: ex_args_def ex_init)
  note a1 = get_bucket_objects_all_or_nothing
    [of ex_client "''src''" ex_src_pages ?e ?c1 ex_md5 "[]" ex_boto3 ?a]
  note a2 = get_bucket_objects_all_or_nothing
    [of ex_client "''bad''" ?bad ?e ?c2 ex_md5 "[]" ex_boto3 ?a]
  have "\<exists>objects. get_bucket_objects ex_client ''src'' = Inr objects
         \<and> fst ` set objects = Key ` set (listed ex_src_pages)"
    using a1 p1 by blast
  moreover have "get_bucket_objects ex_client ''bad'' = Inl ?e"
    using a2 p2 by blast
  moreover have "compare_buckets ex_md5 ?c1 = Inl ?e"
    using a1 l1 by blast
  moreover have c2: "compare_buckets ex_md5 ?c2 = Inl ?e"
    using a2 l2 l3 by blast
  moreover have "main ex_md5 ex_boto3 ?a = 1"
    using a2 i c2 by blast
  ultimately show ?thesis
    using p1 p2 l1 l2 l3 by (intro conjI)
qed

text \<open>
  C7. When tags are ignored, the differences have no entry \<^verbatim>\<open>etag_mismatch\<close>, for any pair
  of snapshots. For a key present on both sides with equal sizes, the round of the loop
  then does one of two things: it adds the key to \<^verbatim>\<open>content_mismatch\<close>, when contents are
  verified and \<^verbatim>\<open>_compare_file_hashes\<close> answers \<open>False\<close>, or else it increments
  \<^verbatim>\<open>matched_files\<close>. In the result of the run such a key is reported under
  \<^verbatim>\<open>content_mismatch\<close> in exactly the first case and under no other difference type; in
  the second case it is among the keys reported under no difference type, which are the
  keys that \<^verbatim>\<open>matched_files\<close> counts.
\<close>

theorem ignore_etags_no_etag_mismatch:
  assumes "ignore_etags c"
  shows "map_of (fst (compare_objects md5 c S T)) etag_mismatch = None
    \<and> matched_files (snd (compare_objects md5 c S T)) =
        card ((fst ` set S \<union> fst ` set T)
              - (\<Union>ty. keys_in (fst (compare_objects md5 c S T)) ty))
    \<and> (\<forall>k s t. map_of S k = Some s \<and> map_of T k = Some t \<and> mSize s = mSize t \<longrightarrow>
          (\<forall>d st. compare_key md5 c S T (d, st) k =
              (if compare_hashes c \<and> \<not> compare_file_hashes md5 c k
               then (add_diff d content_mismatch k, st)
               else (d, st\<lparr>matched_files := matched_files st + 1\<rparr>)))
          \<and> (k \<in> keys_in (fst (compare_objects md5 c S T)) content_mismatch \<longleftrightarrow>
               compare_hashes c \<and> \<not> compare_file_hashes md5 c k)
          \<and> (\<not> (compare_hashes c \<and> \<not> compare_file_hashes md5 c k) \<longrightarrow>
               k \<in> (fst ` set S \<union> fst ` set T)
                     - (\<Union>ty. keys_in (fst (compare_objects md5 c S T)) ty))
          \<and> (classify md5 c S T k = Matched \<or> classify md5 c S T k = ContentMismatch)
          \<and> (classify md5 c S T k = ContentMismatch \<longrightarrow> compare_hashes c)
          \<and> (\<forall>ty. k \<in> keys_in (fst (compare_objects md5 c S T)) ty \<longrightarrow>
                ty = content_mismatch \<and> compare_hashes c))"
proof -
  let ?U = "fst ` set S \<union> fst ` set T"
  let ?d = "fst (compare_objects md5 c S T)"
  have never: "classify md5 c S T k \<noteq> IntegrityTagMismatch" for k
    using assms by (simp add: classify_def split: option.splits)
  then have none: "map_of ?d etag_mismatch = None"
    by (simp add: compare_objects_map_of)
  have count: "matched_files (snd (compare_objects md5 c S T)) = card (?U - (\<Union>ty. keys_in ?d ty))"
    by (simp only: compare_objects_unreported compare_objects_matched)
  have per_key:
    "(\<forall>d st. compare_key md5 c S T (d, st) k =
          (if compare_hashes c \<and> \<not> compare_file_hashes md5 c k
           then (add_diff d content_mismatch k, st)
           else (d, st\<lparr>matched_files := matched_files st + 1\<rparr>)))
      \<and> (k \<in> keys_in ?d content_mismatch \<longleftrightarrow>
           compare_hashes c \<and> \<not> compare_file_hashes md5 c k)
      \<and> (\<not> (compare_hashes c \<and> \<not> compare_file_hashes md5 c k) \<longrightarrow>
           k \<in> ?U - (\<Union>ty. keys_in ?d ty))
      \<and> (classify md5 c S T k = Matched \<or> classify md5 c S T k = ContentMismatch)
      \<and> (classify md5 c S T k = ContentMismatch \<longrightarrow> compare_hashes c)
      \<and> (\<forall>ty. k \<in> keys_in ?d ty \<longrightarrow> ty = content_mismatch \<and> compare_hashes c)"
    if "map_of S k = Some s" and "map_of T k = Some t" and "mSize s = mSize t" for k s t
  proof -
    have round: "\<forall>d st. compare_key md5 c S T (d, st) k =
        (if compare_hashes c \<and> \<not> compare_file_hashes md5 c k
         then (add_diff d content_mismatch k, st)
         else (d, st\<lparr>matched_files := matched_files st + 1\<rparr>))"
      using assms that by (simp add: compare_key_def)
    have cl: "classify md5 c S T k =
        (if compare_hashes c \<and> \<not> compare_file_hashes md5 c k then ContentMismatch
         else Matched)"
      using assms that by (simp add: classify_def compare_file_hashes_verify_equal)
    have inU: "k \<in> ?U"
      using that(1) by (metis map_of_SomeD fst_conv image_eqI UnI1)
    then have cm: "k \<in> keys_in ?d content_mismatch \<longleftrightarrow>
        compare_hashes c \<and> \<not> compare_file_hashes md5 c k"
      using cl by (simp add: compare_objects_keys_in)
    have unrep: "\<not> (compare_hashes c \<and> \<not> compare_file_hashes md5 c k) \<longrightarrow>
        k \<in> ?U - (\<Union>ty. keys_in ?d ty)"
      using cl inU by (simp only: compare_objects_unreported) simp
    have only: "ty = content_mismatch \<and> compare_hashes c"
      if "k \<in> keys_in ?d ty" for ty
      using that cl by (cases ty) (auto simp: compare_objects_keys_in split: if_splits)
    from round cm unrep cl only show ?thesis by auto
  qed
  from none count per_key show ?thesis by blast
qed

theorem ignore_etags_no_etag_mismatch_witness:
  "ignore_etags (ex_comparer ''src'' ''tgt'' True True)
   \<and> map_of (fst (compare_objects ex_md5 (ex_comparer ''src'' ''tgt'' True True) ex_S ex_T))
       etag_mismatch = None
   \<and> map_of ex_S ''t'' = Some (ex_meta 10 ''x'')
   \<and> map_of ex_T ''t'' = Some (ex_meta 10 ''y'')
   \<and> mSize (ex_meta 10 ''x'') = mSize (ex_meta 10 ''y'')
   \<and> compare_key ex_md5 (ex_comparer ''src'' ''tgt'' True True) ex_S ex_T
       ([], \<lparr>total_files = 7, matched_files = 0\<rparr>) ''t''
       = ([], \<lparr>total_files = 7, matched_files = 1\<rparr>)
   \<and> ''t'' \<in> (fst ` set ex_S \<union> fst ` set ex_T)
        - (\<Union>ty. keys_in
             (fst (compare_objects ex_md5 (ex_comparer ''src'' ''tgt'' True True) ex_S ex_T)) ty)
   \<and> map_of ex_S ''h'' = Some (ex_meta 3 ''x'')
   \<and> map_of ex_T ''h'' = Some (ex_meta 3 ''x'')
   \<and> compare_key ex_md5 (ex_comparer ''src'' ''tgt'' True True) ex_S ex_T
       ([], \<lparr>total_files = 7, matched_files = 0\<rparr>) ''h''
       = (add_diff [] content_mismatch ''h'', \<lparr>total_files = 7, matched_files = 0\<rparr>)
   \<and> ''h'' \<in> keys_in
        (fst (compare_objects ex_md5 (ex_comparer ''src'' ''tgt'' True True) ex_S ex_T))
        content_mismatch
   \<and> ''h'' \<notin> keys_in
        (fst (compare_objects ex_md5 (ex_comparer ''src'' ''tgt'' True True) ex_S ex_T))
        size_mismatch"
proof -
  let ?c = "ex_comparer ''src'' ''tgt'' True True"
  let ?d = "fst (compare_objects ex_md5 ?c ex_S ex_T)"
  let ?st = "\<lparr>total_files = 7, matched_files = 0\<rparr>"
  have ign: "ignore_etags ?c"
    by (simp add: ex_comparer_def)
  have cmp: "compare_hashes ?c"
    by (simp add: ex_comparer_def)
  have ts: "map_of ex_S ''t'' = Some (ex_meta 10 ''x'')"
    by (simp add: ex_S_def)
  have tt: "map_of ex_T ''t'' = Some (ex_meta 10 ''y'')"
    by (simp add: ex_T_def)
  have tz: "mSize (ex_meta 10 ''x'') = mSize (ex_meta 10 ''y'')"
    by (simp add: ex_meta_def)
  have hs: "map_of ex_S ''h'' = Some (ex_meta 3 ''x'')"
    by (simp add: ex_S_def)
  have ht: "map_of ex_T ''h'' = Some (ex_meta 3 ''x'')"
    by (simp add: ex_T_def)
  have hz: "mSize (ex_meta 3 ''x'') = mSize (ex_meta 3 ''x'')"
    by simp
  have diff: "size_mismatch \<noteq> content_mismatch"
    by simp
  note all = ignore_etags_no_etag_mismatch [OF ign, of ex_md5 ex_S ex_T]
  have none: "map_of ?d etag_mismatch = None"
    using all by blast
  have t_round: "compare_key ex_md5 ?c ex_S ex_T ([], ?st) ''t''
      = ([], ?st\<lparr>matched_files := matched_files ?st + 1\<rparr>)"
    using all ts tt tz ex_hashes_t by auto
  have t_unrep: "''t'' \<in> (fst ` set ex_S \<union> fst ` set ex_T) - (\<Union>ty. keys_in ?d ty)"
    using all ts tt tz ex_hashes_t by blast
  have h_round: "compare_key ex_md5 ?c ex_S ex_T ([], ?st) ''h''
      = (add_diff [] content_mismatch ''h'', ?st)"
    using all hs ht hz ex_hashes_h cmp by auto
  have h_in: "''h'' \<in> keys_in ?d content_mismatch"
    using all hs ht hz ex_hashes_h cmp by blast
  have h_out: "''h'' \<notin> keys_in ?d size_mismatch"
    using all hs ht hz diff by blast
  from t_round have t_round': "compare_key ex_md5 ?c ex_S ex_T ([], ?st) ''t''
      = ([], \<lparr>total_files = 7, matched_files = 1\<rparr>)"
    by simp
  from ign none ts tt tz t_round' t_unrep hs ht h_round h_in h_out show ?thesis
    by (intro conjI)
qed

text \<open>
  C8. The differences dictionary returned by \<^verbatim>\<open>compare_buckets\<close> has at most one entry
  per difference type, and every entry holds a non-empty set of keys: an entry is only
  ever created by adding a key to it. A difference type with no keys therefore has no
  entry at all.
\<close>

theorem compare_buckets_entries_nonempty:
  assumes "compare_buckets md5 c = Inr (d, st)"
  shows "distinct (map fst d) \<and> (\<forall>t keys. (t, keys) \<in> set d \<longrightarrow> keys \<noteq> {})"
proof -
  obtain S T where "(d, st) = compare_objects md5 c S T"
    using compare_buckets_InrD [OF assms] by blast
  then have d: "d = fst (compare_objects md5 c S T)"
    by (metis fst_conv)
  have dist: "distinct (map fst d)"
    unfolding d by (rule compare_objects_distinct)
  have "keys \<noteq> {}" if "(t, keys) \<in> set d" for t keys
  proof -
    have "map_of d t = Some keys"
      using dist that by simp
    moreover have "map_of d t \<noteq> Some {}"
      unfolding d by (simp add: compare_objects_map_of)
    ultimately show ?thesis by auto
  qed
  with dist show ?thesis by blast
qed

theorem compare_buckets_entries_nonempty_witness:
  "compare_buckets ex_md5 (ex_comparer ''src'' ''tgt'' True False) =
     Inr ([(missing_in_target, {''b''}), (extra_in_target, {''c''}), (size_mismatch, {''s''})],
          \<lparr>total_files = 7, matched_files = 4\<rparr>)
   \<and> distinct (map fst
         [(missing_in_target, {''b''}), (extra_in_target, {''c''}), (size_mismatch, {''s''})])
   \<and> (size_mismatch, {''s''}) \<in> set
         [(missing_in_target, {''b''}), (extra_in_target, {''c''}), (size_mismatch, {''s''})]
   \<and> {''s''} \<noteq> ({} :: string set)"
proof -
  have run: "compare_buckets ex_md5 (ex_comparer ''src'' ''tgt'' True False) =
     Inr ([(missing_in_target, {''b''}), (extra_in_target, {''c''}), (size_mismatch, {''s''})],
          \<lparr>total_files = 7, matched_files = 4\<rparr>)"
    using ex_objects_ignore
    by (simp add: compare_buckets_def ex_comparer_def ex_list_src ex_list_tgt)
  have "(size_mismatch, {''s''}) \<in> set
         [(missing_in_target, {''b''}), (extra_in_target, {''c''}), (size_mismatch, {''s''})]"
    by simp
  then show ?thesis
    using run compare_buckets_entries_nonempty [OF run] by blast
qed

text \<open>
  C9. When the digest is unavailable on both sides, \<^verbatim>\<open>_compare_file_hashes\<close> answers
  \<open>False\<close>: the guard on \<^verbatim>\<open>None\<close> comes before the comparison, so two missing digests
  are not taken for equal ones. With content verification on, the round of the loop for
  such a key leaves \<^verbatim>\<open>matched_files\<close> as it was.
\<close>

theorem both_hashes_failed_not_equal:
  assumes "calculate_md5 md5 (source_s3 c) (source_bucket c) key = None"
    and "calculate_md5 md5 (target_s3 c) (target_bucket c) key = None"
  shows "\<not> compare_file_hashes md5 c key
    \<and> (compare_hashes c \<longrightarrow>
         matched_files (snd (compare_key md5 c S T (d, st) key)) = matched_files st)"
  using assms
  by (simp add: compare_file_hashes_def compare_key_def split: option.splits)

theorem both_hashes_failed_not_equal_witness:
  "calculate_md5 ex_md5 (source_s3 (ex_comparer ''src'' ''tgt'' False True))
     (source_bucket (ex_comparer ''src'' ''tgt'' False True)) ''e'' = None
   \<and> calculate_md5 ex_md5 (target_s3 (ex_comparer ''src'' ''tgt'' False True))
       (target_bucket (ex_comparer ''src'' ''tgt'' False True)) ''e'' = None
   \<and> compare_hashes (ex_comparer ''src'' ''tgt'' False True)
   \<and> \<not> compare_file_hashes ex_md5 (ex_comparer ''src'' ''tgt'' False True) ''e''
   \<and> matched_files (snd (compare_key ex_md5 (ex_comparer ''src'' ''tgt'' False True) ex_S ex_T
        ([], \<lparr>total_files = 7, matched_files = 1\<rparr>) ''e'')) = 1"
proof -
  let ?c = "ex_comparer ''src'' ''tgt'' False True"
  have s: "calculate_md5 ex_md5 (source_s3 ?c) (source_bucket ?c) ''e'' = None"
    by (simp add: ex_comparer_def ex_md5_src_e)
  have t: "calculate_md5 ex_md5 (target_s3 ?c) (target_bucket ?c) ''e'' = None"
    by (simp add: ex_comparer_def ex_md5_tgt_e)
  have h: "compare_hashes ?c"
    by (simp add: ex_comparer_def)
  show ?thesis
    using s t h
      both_hashes_failed_not_equal [OF s t, of ex_S ex_T "[]"
        "\<lparr>total_files = 7, matched_files = 1\<rparr>"]
    by simp
qed

text \<open>
  C10. A page without \<^verbatim>\<open>Contents\<close> is skipped: the loop goes on with the dictionary
  unchanged. A listing that ends without raising and all of whose pages lack
  \<^verbatim>\<open>Contents\<close>, as the listing of an empty bucket does, gives the empty dictionary and
  no exception.
\<close>

theorem pages_without_contents_skipped:
  assumes "paginate s3 bucket = pages_then pgs StopIteration"
    and "\<forall>pg \<in> set pgs. Contents pg = None"
  shows "get_bucket_objects s3 bucket = Inr []
    \<and> (\<forall>objects pg rest. Contents pg = None \<longrightarrow>
          drain objects (Yield pg rest) = drain objects rest)"
proof -
  have "listed pgs = []"
    using assms(2) by (simp add: listed_def)
  then have "get_bucket_objects s3 bucket = Inr []"
    using get_bucket_objects_drained [OF assms(1)] by simp
  moreover have "\<forall>objects pg rest. Contents pg = None \<longrightarrow>
      drain objects (Yield pg rest) = drain objects rest"
    by (simp add: add_page_def)
  ultimately show ?thesis by (intro conjI)
qed

theorem pages_without_contents_skipped_witness:
  "paginate ex_client ''nil'' = pages_then [\<lparr>Contents = None\<rparr>] StopIteration
   \<and> Contents \<lparr>Contents = None\<rparr> = None
   \<and> get_bucket_objects ex_client ''nil'' = Inr []
   \<and> drain ex_S (Yield \<lparr>Contents = None\<rparr> StopIteration) = drain ex_S StopIteration"
proof -
  have p: "paginate ex_client ''nil'' = pages_then [\<lparr>Contents = None\<rparr>] StopIteration"
    by (simp add: ex_client_def ex_paginate_def)
  have n: "\<forall>pg \<in> set [\<lparr>Contents = None\<rparr>]. Contents pg = None"
    by simp
  have "Contents \<lparr>Contents = None\<rparr> = None"
    by simp
  then show ?thesis
    using p pages_without_contents_skipped [OF p n] by blast
qed

end
